theory Spec2Isabelle
  imports Main "HOL-Library.Multiset" "HOL-Library.Word" "HOL-Library.Monad_Syntax"
begin

unbundle bit_operations_syntax

section \<open>Instants\<close>

text \<open>
  A \<^verbatim>\<open>time.Time\<close> is modelled by the instant it denotes: the number of nanoseconds
  since the zero time 0001-01-01 00:00:00 UTC.  The location a Go value carries does not
  change the instant (\<^verbatim>\<open>UTC()\<close> and \<^verbatim>\<open>In(loc)\<close> are the identity here); functions
  whose result depends on the location take it as an argument.  Go keeps the count in
  64 bits; the model uses unbounded integers.
\<close>

type_synonym Time = int

definition IsZero :: "Time \<Rightarrow> bool" where
  "IsZero t = (t = 0)"

definition Before :: "Time \<Rightarrow> Time \<Rightarrow> bool" where
  "Before t u = (t < u)"

definition After :: "Time \<Rightarrow> Time \<Rightarrow> bool" where
  "After t u = (t > u)"

section \<open>Package time: the calendar\<close>

text \<open>
  The functions of Go's package \<^verbatim>\<open>time\<close> that the handler calls are not part of the
  repository; they are modelled by their documented meaning, the proleptic Gregorian
  calendar.  \<open>daysSinceZero year\<close> counts the days from 0001-01-01 to the first of
  January of \<open>year\<close>, \<open>monthStart year m\<close> the days of \<open>year\<close> before its month
  \<open>m\<close>.  The year of a day count is found by search from an estimate that is never too
  late; the lemmas show that the conversions between day counts and dates are inverse to
  each other.
\<close>

definition nsPerSecond :: int where "nsPerSecond = 1000000000"
definition secondsPerDay :: int where "secondsPerDay = 86400"
definition unixToInternal :: int where "unixToInternal = 62135596800"

definition isLeap :: "int \<Rightarrow> bool" where
  "isLeap year = (year mod 4 = 0 \<and> (year mod 100 \<noteq> 0 \<or> year mod 400 = 0))"

definition daysBefore :: "int \<Rightarrow> int" where
  "daysBefore m = [0, 31, 59, 90, 120, 151, 181, 212, 243, 273, 304, 334, 365] ! nat m"

definition daysIn :: "int \<Rightarrow> int \<Rightarrow> int" where
  "daysIn m year = (if m = 2 \<and> isLeap year then 29 else daysBefore m - daysBefore (m - 1))"

definition daysSinceZero :: "int \<Rightarrow> int" where
  "daysSinceZero year = 365 * (year - 1) + (year - 1) div 4 - (year - 1) div 100 + (year - 1) div 400"

definition monthStart :: "int \<Rightarrow> int \<Rightarrow> int" where
  "monthStart year m = daysBefore (m - 1) + (if isLeap year \<and> 3 \<le> m then 1 else 0)"



lemma mod_pred: "0 < n \<Longrightarrow> ((y::int) - 1) mod n = (if y mod n = 0 then n - 1 else y mod n - 1)"
proof -
  assume n: "0 < n"
  have r: "0 \<le> y mod n" "y mod n < n" using n by simp_all
  have e: "(y - 1) mod n = (y mod n - 1) mod n" by (simp add: mod_diff_left_eq)
  show ?thesis
  proof (cases "y mod n = 0")
    case True
    then have "(y - 1) mod n = (- 1) mod n" using e by simp
    also have "\<dots> = n - 1" using n by (simp add: zmod_minus1)
    finally show ?thesis using True by simp
  next
    case False
    then have "0 \<le> y mod n - 1" "y mod n - 1 < n" using r by simp_all
    then have "(y mod n - 1) mod n = y mod n - 1" by (rule mod_pos_pos_trivial)
    then show ?thesis using False e by simp
  qed
qed


lemma div_step: "0 < n \<Longrightarrow> (y::int) div n = (y - 1) div n + (if y mod n = 0 then 1 else 0)"
proof -
  assume n: "0 < n"
  have a: "n * (y div n) = y - y mod n" by (simp add: minus_mod_eq_mult_div)
  have b: "n * ((y - 1) div n) = (y - 1) - (y - 1) mod n" by (simp add: minus_mod_eq_mult_div)
  have "n * (y div n - (y - 1) div n) = (if y mod n = 0 then n else 0)"
    unfolding right_diff_distrib a b using mod_pred[OF n, of y] by simp
  then show ?thesis using n by (auto split: if_splits)
qed


lemma mod_4_of_100: "(y::int) mod 100 = 0 \<Longrightarrow> y mod 4 = 0"
proof -
  assume "y mod 100 = 0"
  then have "100 dvd y" by (simp add: dvd_eq_mod_eq_0)
  moreover have "(4::int) dvd 100" by simp
  ultimately have "4 dvd y" by (rule dvd_trans[rotated])
  then show ?thesis by (simp add: dvd_eq_mod_eq_0)
qed

lemma mod_100_of_400: "(y::int) mod 400 = 0 \<Longrightarrow> y mod 100 = 0"
proof -
  assume "y mod 400 = 0"
  then have "400 dvd y" by (simp add: dvd_eq_mod_eq_0)
  moreover have "(100::int) dvd 400" by simp
  ultimately have "100 dvd y" by (rule dvd_trans[rotated])
  then show ?thesis by (simp add: dvd_eq_mod_eq_0)
qed


lemma div_step0: "0 < n \<Longrightarrow> y mod n = 0 \<Longrightarrow> (y::int) div n = (y - 1) div n + 1"
  using div_step[of n y] by simp

lemma div_step1: "0 < n \<Longrightarrow> y mod n \<noteq> 0 \<Longrightarrow> (y::int) div n = (y - 1) div n"
  using div_step[of n y] by simp

lemma daysSinceZero_step:
  "daysSinceZero (y + 1) = daysSinceZero y + (if isLeap y then 366 else 365)"
proof -
  define a b c a' b' c' where "a = y div 4" and "b = y div 100" and "c = y div 400"
    and "a' = (y - 1) div 4" and "b' = (y - 1) div 100" and "c' = (y - 1) div 400"
  have L: "daysSinceZero (y + 1) = 365 * y + a - b + c"
    by (simp add: daysSinceZero_def a_def b_def c_def)
  have R: "daysSinceZero y = 365 * (y - 1) + a' - b' + c'"
    by (simp add: daysSinceZero_def a'_def b'_def c'_def)
  have s4: "y mod 4 = 0 \<Longrightarrow> a = a' + 1" unfolding a_def a'_def by (rule div_step0) simp_all
  have n4: "y mod 4 \<noteq> 0 \<Longrightarrow> a = a'" unfolding a_def a'_def by (rule div_step1) simp_all
  have s100: "y mod 100 = 0 \<Longrightarrow> b = b' + 1" unfolding b_def b'_def by (rule div_step0) simp_all
  have n100: "y mod 100 \<noteq> 0 \<Longrightarrow> b = b'" unfolding b_def b'_def by (rule div_step1) simp_all
  have s400: "y mod 400 = 0 \<Longrightarrow> c = c' + 1" unfolding c_def c'_def by (rule div_step0) simp_all
  have n400: "y mod 400 \<noteq> 0 \<Longrightarrow> c = c'" unfolding c_def c'_def by (rule div_step1) simp_all
  consider (a) "y mod 4 \<noteq> 0" | (b) "y mod 4 = 0" "y mod 100 \<noteq> 0"
    | (c) "y mod 100 = 0" "y mod 400 \<noteq> 0" | (d) "y mod 400 = 0"
    by argo
  then show ?thesis
  proof cases
    case a
    then have a100: "y mod 100 \<noteq> 0" using mod_4_of_100[of y] by argo
    then have a400: "y mod 400 \<noteq> 0" using mod_100_of_400[of y] by argo
    have nl: "\<not> isLeap y" unfolding isLeap_def using a by argo
    have "daysSinceZero (y + 1) = daysSinceZero y + 365"
      using L R n4[OF a] n100[OF a100] n400[OF a400] by simp
    with nl show ?thesis by (simp only: if_False)
  next
    case b
    then have a400: "y mod 400 \<noteq> 0" using mod_100_of_400[of y] by argo
    have l: "isLeap y" unfolding isLeap_def using b by argo
    have "daysSinceZero (y + 1) = daysSinceZero y + 366"
      using L R s4[OF b(1)] n100[OF b(2)] n400[OF a400] by simp
    with l show ?thesis by (simp only: if_True)
  next
    case c
    then have a4: "y mod 4 = 0" using mod_4_of_100[of y] by argo
    have nl: "\<not> isLeap y" unfolding isLeap_def using c by argo
    have "daysSinceZero (y + 1) = daysSinceZero y + 365"
      using L R s4[OF a4] s100[OF c(1)] n400[OF c(2)] by simp
    with nl show ?thesis by (simp only: if_False)
  next
    case d
    then have a100: "y mod 100 = 0" using mod_100_of_400[of y] by argo
    then have a4: "y mod 4 = 0" using mod_4_of_100[of y] by argo
    have l: "isLeap y" unfolding isLeap_def using d a4 by argo
    have "daysSinceZero (y + 1) = daysSinceZero y + 366"
      using L R s4[OF a4] s100[OF a100] s400[OF d] by simp
    with l show ?thesis by (simp only: if_True)
  qed
qed

lemma daysSinceZero_less: "daysSinceZero y < daysSinceZero (y + 1)"
  by (simp add: daysSinceZero_step)


function yearFrom :: "int \<Rightarrow> int \<Rightarrow> int" where
  "yearFrom z y = (if daysSinceZero (y + 1) \<le> z then yearFrom z (y + 1) else y)"
  by pat_completeness auto
termination
proof (relation "measure (\<lambda>(z, y). nat (z + 1 - daysSinceZero (y + 1)))")
  show "wf (measure (\<lambda>(z, y). nat (z + 1 - daysSinceZero (y + 1))))" by simp
next
  fix z y :: int
  assume "daysSinceZero (y + 1) \<le> z"
  moreover have "daysSinceZero (y + 1) < daysSinceZero (y + 1 + 1)" by (rule daysSinceZero_less)
  ultimately show "((z, y + 1), (z, y)) \<in> measure (\<lambda>(z, y). nat (z + 1 - daysSinceZero (y + 1)))"
    by simp
qed

declare yearFrom.simps [simp del]

definition yearOf :: "int \<Rightarrow> int" where
  "yearOf z = yearFrom z (if 0 \<le> z then z div 366 + 1 else z div 365 + 1)"

lemma yearFrom_spec:
  "daysSinceZero y \<le> z \<Longrightarrow> daysSinceZero (yearFrom z y) \<le> z \<and> z < daysSinceZero (yearFrom z y + 1)"
proof (induction z y rule: yearFrom.induct)
  case (1 z y)
  show ?case
  proof (cases "daysSinceZero (y + 1) \<le> z")
    case True
    with 1 show ?thesis by (subst (1 2) yearFrom.simps) simp
  next
    case False
    with 1 show ?thesis by (subst (1 2) yearFrom.simps) simp
  qed
qed

lemma estimate_ok:
  "daysSinceZero (if 0 \<le> z then z div 366 + 1 else z div 365 + 1) \<le> z"
proof (cases "0 \<le> z")
  case True
  define q where "q = z div 366"
  have q0: "0 \<le> q" using True by (simp add: q_def pos_imp_zdiv_nonneg_iff)
  have "366 * q = z - z mod 366" unfolding q_def by (simp add: minus_mod_eq_mult_div)
  then have "366 * q \<le> z" by simp
  moreover have "q div 4 \<le> q div 1" using q0 by (intro zdiv_mono2) simp_all
  moreover have "0 \<le> q div 100" using q0 by (simp add: pos_imp_zdiv_nonneg_iff)
  moreover have "q div 400 \<le> q div 100" using q0 by (intro zdiv_mono2) simp_all
  ultimately show ?thesis using True by (simp add: daysSinceZero_def q_def[symmetric])
next
  case False
  define q where "q = z div 365"
  have q0: "q < 0" using False by (simp add: q_def div_neg_pos_less0)
  have "365 * q = z - z mod 365" unfolding q_def by (simp add: minus_mod_eq_mult_div)
  then have "365 * q \<le> z" by simp
  moreover have "q div 4 \<le> q div 100" using q0 by (intro zdiv_mono2_neg) simp_all
  moreover have "q div 400 < 0" using q0 by (simp add: div_neg_pos_less0)
  ultimately show ?thesis using False by (simp add: daysSinceZero_def q_def[symmetric])
qed

lemma yearOf_spec: "daysSinceZero (yearOf z) \<le> z \<and> z < daysSinceZero (yearOf z + 1)"
  unfolding yearOf_def by (rule yearFrom_spec[OF estimate_ok])



definition monthOf :: "int \<Rightarrow> int \<Rightarrow> int" where
  "monthOf year yday =
    (if yday < monthStart year 2 then 1 else if yday < monthStart year 3 then 2
     else if yday < monthStart year 4 then 3 else if yday < monthStart year 5 then 4
     else if yday < monthStart year 6 then 5 else if yday < monthStart year 7 then 6
     else if yday < monthStart year 8 then 7 else if yday < monthStart year 9 then 8
     else if yday < monthStart year 10 then 9 else if yday < monthStart year 11 then 10
     else if yday < monthStart year 12 then 11 else 12)"

definition civil :: "int \<Rightarrow> int \<times> int \<times> int" where
  "civil z =
    (let year = yearOf z;
         yday = z - daysSinceZero year;
         month = monthOf year yday
     in (year, month, yday - monthStart year month + 1))"

definition daysOf :: "int \<Rightarrow> int \<Rightarrow> int \<Rightarrow> int" where
  "daysOf year month day = daysSinceZero year + monthStart year month + (day - 1)"

lemma monthStart_simps:
  "monthStart y 1 = 0" "monthStart y 2 = 31"
  "monthStart y 3 = 59 + (if isLeap y then 1 else 0)"
  "monthStart y 4 = 90 + (if isLeap y then 1 else 0)"
  "monthStart y 5 = 120 + (if isLeap y then 1 else 0)"
  "monthStart y 6 = 151 + (if isLeap y then 1 else 0)"
  "monthStart y 7 = 181 + (if isLeap y then 1 else 0)"
  "monthStart y 8 = 212 + (if isLeap y then 1 else 0)"
  "monthStart y 9 = 243 + (if isLeap y then 1 else 0)"
  "monthStart y 10 = 273 + (if isLeap y then 1 else 0)"
  "monthStart y 11 = 304 + (if isLeap y then 1 else 0)"
  "monthStart y 12 = 334 + (if isLeap y then 1 else 0)"
  "monthStart y 13 = 365 + (if isLeap y then 1 else 0)"
  by (simp_all add: monthStart_def daysBefore_def)

lemma daysIn_monthStart:
  "1 \<le> m \<Longrightarrow> m \<le> 12 \<Longrightarrow> monthStart y (m + 1) = monthStart y m + daysIn m y"
proof -
  assume "1 \<le> m" "m \<le> 12"
  then consider "m = 1" | "m = 2" | "m = 3" | "m = 4" | "m = 5" | "m = 6" | "m = 7" | "m = 8"
    | "m = 9" | "m = 10" | "m = 11" | "m = 12" by atomize_elim presburger
  then show ?thesis
    by cases (simp_all add: monthStart_simps daysIn_def daysBefore_def)
qed

lemma daysIn_pos: "1 \<le> m \<Longrightarrow> m \<le> 12 \<Longrightarrow> 28 \<le> daysIn m y"
proof -
  assume "1 \<le> m" "m \<le> 12"
  then consider "m = 1" | "m = 2" | "m = 3" | "m = 4" | "m = 5" | "m = 6" | "m = 7" | "m = 8"
    | "m = 9" | "m = 10" | "m = 11" | "m = 12" by atomize_elim presburger
  then show ?thesis
    by cases (simp_all add: daysIn_def daysBefore_def)
qed

lemma monthOf_spec:
  assumes "0 \<le> yd" "yd < monthStart y 13"
  shows "1 \<le> monthOf y yd \<and> monthOf y yd \<le> 12 \<and>
         monthStart y (monthOf y yd) \<le> yd \<and> yd < monthStart y (monthOf y yd + 1)"
  using assms unfolding monthOf_def by (simp add: monthStart_simps)



lemma yday_bounds:
  "0 \<le> z - daysSinceZero (yearOf z) \<and> z - daysSinceZero (yearOf z) < monthStart (yearOf z) 13"
  using yearOf_spec[of z] daysSinceZero_step[of "yearOf z"]
  by (simp add: monthStart_simps split: if_splits)

lemma civil_valid:
  assumes "civil z = (y, m, d)"
  shows "1 \<le> m \<and> m \<le> 12 \<and> 1 \<le> d \<and> d \<le> daysIn m y"
proof -
  define yd where "yd = z - daysSinceZero (yearOf z)"
  have y: "y = yearOf z" and m: "m = monthOf y yd" and d: "d = yd - monthStart y m + 1"
    using assms by (auto simp: civil_def Let_def yd_def)
  have b: "0 \<le> yd" "yd < monthStart y 13" using yday_bounds[of z] by (simp_all add: yd_def y)
  note sp = monthOf_spec[OF b, folded m]
  from sp have "monthStart y (m + 1) = monthStart y m + daysIn m y"
    by (intro daysIn_monthStart) simp_all
  with sp show ?thesis by (simp add: d)
qed

lemma daysOf_civil:
  assumes "civil z = (y, m, d)"
  shows "daysOf y m d = z"
  using assms by (auto simp: civil_def Let_def daysOf_def)



subsection \<open>Locations, clock and calendar fields\<close>

text \<open>
  A \<^verbatim>\<open>*time.Location\<close> is its lookup function: for an instant in Unix seconds, the
  offset east of UTC in force and the bounds of the period it is in force for.  What
  \<^verbatim>\<open>time.LoadLocation\<close> returns is an argument of the handler.  \<open>Date\<close> follows
  \<^verbatim>\<open>time.Date\<close>: the month is normalised into the year, the other fields enter linearly,
  and the offset is looked up first at the local reading and again at the corrected
  instant when that falls outside the period found.  \<open>AddDate\<close>, \<open>Truncate\<close> and the
  field functions follow the library's definitions.  \<open>Second_d\<close>, \<open>Minute_d\<close> and
  \<open>Hour_d\<close> are the durations \<^verbatim>\<open>time.Second\<close>, \<^verbatim>\<open>time.Minute\<close> and
  \<^verbatim>\<open>time.Hour\<close>.
\<close>

type_synonym Location = "int \<Rightarrow> int \<times> int \<times> int"

definition alpha :: int where "alpha = - (2 ^ 63)"
definition omega :: int where "omega = 2 ^ 63 - 1"

definition UTC :: Location where
  "UTC = (\<lambda>sec. (0, alpha, omega))"

definition FixedZone :: "int \<Rightarrow> Location" where
  "FixedZone offset = (\<lambda>sec. (offset, alpha, omega))"

definition unixSec :: "Time \<Rightarrow> int" where
  "unixSec t = t div nsPerSecond - unixToInternal"

definition absSec :: "Location \<Rightarrow> Time \<Rightarrow> int" where
  "absSec loc t = (let sec = unixSec t in sec + fst (loc sec) + unixToInternal)"

definition Year :: "Location \<Rightarrow> Time \<Rightarrow> int" where
  "Year loc t = fst (civil (absSec loc t div secondsPerDay))"
definition Month :: "Location \<Rightarrow> Time \<Rightarrow> int" where
  "Month loc t = fst (snd (civil (absSec loc t div secondsPerDay)))"
definition Day :: "Location \<Rightarrow> Time \<Rightarrow> int" where
  "Day loc t = snd (snd (civil (absSec loc t div secondsPerDay)))"
definition Hour :: "Location \<Rightarrow> Time \<Rightarrow> int" where
  "Hour loc t = (absSec loc t mod secondsPerDay) div 3600"
definition Minute :: "Location \<Rightarrow> Time \<Rightarrow> int" where
  "Minute loc t = (absSec loc t mod 3600) div 60"
definition Second :: "Location \<Rightarrow> Time \<Rightarrow> int" where
  "Second loc t = absSec loc t mod 60"
definition Nanosecond :: "Time \<Rightarrow> int" where
  "Nanosecond t = t mod nsPerSecond"

definition Date :: "int \<Rightarrow> int \<Rightarrow> int \<Rightarrow> int \<Rightarrow> int \<Rightarrow> int \<Rightarrow> int \<Rightarrow> Location \<Rightarrow> Time" where
  "Date year month day hour mn sec nsec loc =
    (let m = month - 1;
         year = year + m div 12;
         month = m mod 12 + 1;
         sec = sec + nsec div nsPerSecond;
         nsec = nsec mod nsPerSecond;
         asec = daysOf year month day * secondsPerDay + hour * 3600 + mn * 60 + sec;
         unix = asec - unixToInternal;
         (offset, zstart, zend) = loc unix;
         unix =
           (if offset \<noteq> 0 then
              (let utc = unix - offset;
                   offset = (if utc < zstart \<or> zend \<le> utc then fst (loc utc) else offset)
               in unix - offset)
            else unix)
     in (unix + unixToInternal) * nsPerSecond + nsec)"

definition AddDate :: "Location \<Rightarrow> int \<Rightarrow> int \<Rightarrow> int \<Rightarrow> Time \<Rightarrow> Time" where
  "AddDate loc years months days t =
     Date (Year loc t + years) (Month loc t + months) (Day loc t + days)
          (Hour loc t) (Minute loc t) (Second loc t) (Nanosecond t) loc"

definition Truncate :: "Time \<Rightarrow> int \<Rightarrow> Time" where
  "Truncate t d = (if d \<le> 0 then t else t - t mod d)"

definition Second_d :: int where "Second_d = nsPerSecond"
definition Minute_d :: int where "Minute_d = 60 * Second_d"
definition Hour_d :: int where "Hour_d = 60 * Minute_d"

lemma Date_FixedZone:
  assumes "1 \<le> month" "month \<le> 12" "0 \<le> nsec" "nsec < nsPerSecond"
  shows "Date year month day hour mn sec nsec (FixedZone off) =
     (daysOf year month day * secondsPerDay + hour * 3600 + mn * 60 + sec - off) * nsPerSecond + nsec"
proof -
  have m: "(month - 1) div 12 = 0" "(month - 1) mod 12 + 1 = month"
    using assms(1,2) by simp_all
  have n: "nsec div nsPerSecond = 0" "nsec mod nsPerSecond = nsec"
    using assms(3,4) by simp_all
  show ?thesis
    unfolding Date_def Let_def m n FixedZone_def by simp
qed

lemma clock_recompose:
  "(a mod 86400) div 3600 * 3600 + (a mod 3600) div 60 * 60 + a mod 60 = (a::int) mod 86400"
proof -
  define s where "s = a mod 86400"
  have "s mod 3600 = a mod 3600" unfolding s_def by (simp add: mod_mod_cancel)
  moreover have "s mod 60 = a mod 60" unfolding s_def by (simp add: mod_mod_cancel)
  moreover have "s div 3600 * 3600 + (s mod 3600) div 60 * 60 + s mod 60 = s"
  proof -
    have "(s mod 3600) div 60 * 60 + (s mod 3600) mod 60 = s mod 3600" by simp
    moreover have "(s mod 3600) mod 60 = s mod 60" by (simp add: mod_mod_cancel)
    moreover have "s div 3600 * 3600 + s mod 3600 = s" by simp
    ultimately show ?thesis by linarith
  qed
  ultimately show ?thesis unfolding s_def by simp
qed

lemma AddDate_FixedZone_day:
  "AddDate (FixedZone off) 0 0 1 t = t + 86400 * nsPerSecond"
proof -
  define a where "a = absSec (FixedZone off) t"
  define z where "z = a div 86400"
  obtain y m d where c: "civil z = (y, m, d)" by (cases "civil z") auto
  have a: "a = t div nsPerSecond + off"
    by (simp add: a_def absSec_def Let_def FixedZone_def unixSec_def)
  note v = civil_valid[OF c]
  have ns: "0 \<le> t mod nsPerSecond" "t mod nsPerSecond < nsPerSecond"
    by (simp_all add: nsPerSecond_def)
  have dz: "daysOf y m (d + 1) = z + 1"
    using daysOf_civil[OF c] by (simp add: daysOf_def)
  have za: "z * 86400 + a mod 86400 = a" by (simp add: z_def)
  have "AddDate (FixedZone off) 0 0 1 t =
      Date y m (d + 1) ((a mod 86400) div 3600) ((a mod 3600) div 60) (a mod 60) (t mod nsPerSecond) (FixedZone off)"
    unfolding AddDate_def Year_def Month_def Day_def Hour_def Minute_def Second_def Nanosecond_def
        secondsPerDay_def a_def[symmetric] z_def[symmetric] c by simp
  also have "\<dots> = ((z + 1) * 86400 + ((a mod 86400) div 3600 * 3600 + (a mod 3600) div 60 * 60 + a mod 60) - off) * nsPerSecond + t mod nsPerSecond"
    using v ns by (subst Date_FixedZone) (simp_all add: dz secondsPerDay_def)
  also have "\<dots> = (a + 86400 - off) * nsPerSecond + t mod nsPerSecond"
    unfolding clock_recompose using za by (simp add: algebra_simps)
  also have "\<dots> = t + 86400 * nsPerSecond"
    unfolding a by (simp add: algebra_simps)
  finally show ?thesis .
qed

lemma UTC_FixedZone: "UTC = FixedZone 0"
  by (simp add: UTC_def FixedZone_def)


section \<open>Strings and parsing\<close>

text \<open>
  A Go string is its list of bytes.  \<open>Split\<close> is \<^verbatim>\<open>strings.Split\<close> for a separator
  of one byte.  \<open>Parse_dateFormat\<close> is \<^verbatim>\<open>time.Parse\<close> with the layout
  \<^verbatim>\<open>"2006-01-02"\<close>, \<open>Parse_defaultDateFormatForRequestParam\<close> with the layout
  \<^verbatim>\<open>"2006-01-02 15:04:05.999999 -0700"\<close>; \<open>Format_dateFormat\<close> is
  \<^verbatim>\<open>Time.Format\<close> with the first layout, on a value in UTC.  They follow the library of
  Go 1.13, the version \<^verbatim>\<open>go.mod\<close> names: a year of four digits, month, day, minute and
  second of two digits, an hour of one or two digits, a run of spaces where the layout
  has a space (also none, at the end of the value), an optional fraction of at most nine
  digits, and a zone offset of a sign and four digits that the second layout requires.
  The second parser also returns the offset: the value it yields carries the zone of that
  fixed offset.
\<close>

subsection \<open>Strings\<close>

fun Split :: "string \<Rightarrow> char \<Rightarrow> string list" where
  "Split [] sep = [[]]"
| "Split (c # cs) sep =
    (if c = sep then [] # Split cs sep
     else (case Split cs sep of [] \<Rightarrow> [[c]] | x # xs \<Rightarrow> (c # x) # xs))"

definition isDigit :: "char \<Rightarrow> bool" where
  "isDigit c = (48 \<le> (of_char c :: nat) \<and> (of_char c :: nat) \<le> 57)"

definition digitVal :: "char \<Rightarrow> int" where
  "digitVal c = int (of_char c) - 48"

definition digitChar :: "nat \<Rightarrow> char" where
  "digitChar n = char_of (48 + n)"

definition digitsVal :: "string \<Rightarrow> int" where
  "digitsVal s = foldl (\<lambda>a c. a * 10 + digitVal c) 0 s"

definition guard :: "bool \<Rightarrow> unit option" where
  "guard b = (if b then Some () else None)"

definition getnum :: "string \<Rightarrow> bool \<Rightarrow> (int \<times> string) option" where
  "getnum s fixed =
    (case s of
       [] \<Rightarrow> None
     | c0 # r0 \<Rightarrow>
         if \<not> isDigit c0 then None
         else (case r0 of
                 [] \<Rightarrow> if fixed then None else Some (digitVal c0, r0)
               | c1 # r1 \<Rightarrow>
                   if \<not> isDigit c1 then (if fixed then None else Some (digitVal c0, r0))
                   else Some (digitVal c0 * 10 + digitVal c1, r1)))"

definition atoi :: "string \<Rightarrow> int option" where
  "atoi s =
    (let neg = (s \<noteq> [] \<and> hd s = CHR ''-'');
         s = (if s \<noteq> [] \<and> (hd s = CHR ''-'' \<or> hd s = CHR ''+'') then tl s else s)
     in if list_all isDigit s then Some (if neg then - digitsVal s else digitsVal s) else None)"

definition skip :: "string \<Rightarrow> char \<Rightarrow> string option" where
  "skip v p =
    (if p = CHR '' '' then
       (if v \<noteq> [] \<and> hd v \<noteq> CHR '' '' then None
        else Some (dropWhile (\<lambda>c. c = CHR '' '') v))
     else (case v of [] \<Rightarrow> None | c # r \<Rightarrow> if c = p then Some r else None))"

fun digitsOf :: "nat \<Rightarrow> string" where
  "digitsOf n = (if n < 10 then [digitChar n] else digitsOf (n div 10) @ [digitChar (n mod 10)])"

declare digitsOf.simps [simp del]

definition appendInt :: "int \<Rightarrow> nat \<Rightarrow> string" where
  "appendInt x width =
    (let ds = digitsOf (nat \<bar>x\<bar>)
     in (if x < 0 then ''-'' else []) @ replicate (width - length ds) CHR ''0'' @ ds)"

definition Format_dateFormat :: "Time \<Rightarrow> string" where
  "Format_dateFormat t =
     appendInt (Year UTC t) 4 @ ''-'' @ appendInt (Month UTC t) 2 @ ''-'' @ appendInt (Day UTC t) 2"

definition parseYMD :: "string \<Rightarrow> (int \<times> int \<times> int \<times> string) option" where
  "parseYMD v =
    do {
      _ \<leftarrow> guard (4 \<le> length v \<and> isDigit (v ! 0));
      year \<leftarrow> atoi (take 4 v);
      v \<leftarrow> skip (drop 4 v) CHR ''-'';
      (month, v) \<leftarrow> getnum v True;
      _ \<leftarrow> guard (0 < month \<and> month \<le> 12);
      v \<leftarrow> skip v CHR ''-'';
      (day, v) \<leftarrow> getnum v True;
      Some (year, month, day, v)
    }"

definition Parse_dateFormat :: "string \<Rightarrow> Time option" where
  "Parse_dateFormat v =
    do {
      (year, month, day, v) \<leftarrow> parseYMD v;
      _ \<leftarrow> guard (v = []);
      _ \<leftarrow> guard (1 \<le> day \<and> day \<le> daysIn month year);
      Some (Date year month day 0 0 0 0 UTC)
    }"

definition fracSecond :: "string \<Rightarrow> int \<times> string" where
  "fracSecond v =
    (if length v < 2 \<or> v ! 0 \<noteq> CHR ''.'' \<or> \<not> isDigit (v ! 1) then (0, v)
     else (let ds = takeWhile isDigit (take 9 (tl v))
           in (digitsVal ds * 10 ^ (9 - length ds), drop (1 + length ds) v)))"

definition numTZ :: "string \<Rightarrow> (int \<times> string) option" where
  "numTZ v =
    do {
      _ \<leftarrow> guard (5 \<le> length v);
      hr \<leftarrow> atoi (take 2 (drop 1 v));
      mm \<leftarrow> atoi (take 2 (drop 3 v));
      _ \<leftarrow> guard (v ! 0 = CHR ''+'' \<or> v ! 0 = CHR ''-'');
      Some (if v ! 0 = CHR ''-'' then - ((hr * 60 + mm) * 60) else (hr * 60 + mm) * 60, drop 5 v)
    }"

definition Parse_defaultDateFormatForRequestParam :: "string \<Rightarrow> (Time \<times> int) option" where
  "Parse_defaultDateFormatForRequestParam v =
    do {
      (year, month, day, v) \<leftarrow> parseYMD v;
      v \<leftarrow> skip v CHR '' '';
      (hour, v) \<leftarrow> getnum v False;
      _ \<leftarrow> guard (hour < 24);
      v \<leftarrow> skip v CHR '':'';
      (mn, v) \<leftarrow> getnum v True;
      _ \<leftarrow> guard (mn < 60);
      v \<leftarrow> skip v CHR '':'';
      (sec, v) \<leftarrow> getnum v True;
      _ \<leftarrow> guard (sec < 60);
      (nsec, v) \<leftarrow> Some (fracSecond v);
      v \<leftarrow> skip v CHR '' '';
      (zoneOffset, v) \<leftarrow> numTZ v;
      _ \<leftarrow> guard (v = []);
      _ \<leftarrow> guard (1 \<le> day \<and> day \<le> daysIn month year);
      Some (Date year month day hour mn sec nsec UTC - zoneOffset * nsPerSecond, zoneOffset)
    }"



section \<open>The store's types (package store)\<close>

record Message =
  Time :: Time
  RoomID :: string
  Payload :: "8 word list"

record DateFilter =
  Start :: Time
  End :: Time

section \<open>The message cache (package mongodb)\<close>

subsection \<open>The aggregation pipeline\<close>

text \<open>
  The documents \<^verbatim>\<open>GetMessageCache\<close> builds, as data: the comparison operators on
  \<^verbatim>\<open>_id\<close>, the conditions of a \<^verbatim>\<open>$match\<close> and the stages of a pipeline.  The
  collection is the list of stored records; \<^verbatim>\<open>_id\<close> is the record's \<^verbatim>\<open>Time\<close>.
  Timestamps and bounds are compared as instants, at the precision the collection keeps.
\<close>

datatype cmp = Gte Time | Lte Time

datatype cond =
    RoomIdEq string
  | IdCmp "cmp list"
  | Doc "cond list"
  | AndOp "cond list"
  | OrOp "cond list"

datatype stage = Match cond | Sort int | Limit int

datatype db_error = EmptyArray | LimitNotPositive

fun holds_cmp :: "Time \<Rightarrow> cmp \<Rightarrow> bool" where
  "holds_cmp t (Gte v) = (v \<le> t)"
| "holds_cmp t (Lte v) = (t \<le> v)"

text \<open>
  The server refuses \<^verbatim>\<open>$and\<close> and \<^verbatim>\<open>$or\<close> over an empty array
  (``\<^verbatim>\<open>$and/$or/$nor must be a nonempty array\<close>''); a document with several fields is
  their conjunction.
\<close>

fun accepted :: "cond \<Rightarrow> bool" where
  "accepted (RoomIdEq r) = True"
| "accepted (IdCmp cs) = True"
| "accepted (Doc qs) = list_all accepted qs"
| "accepted (AndOp qs) = (qs \<noteq> [] \<and> list_all accepted qs)"
| "accepted (OrOp qs) = (qs \<noteq> [] \<and> list_all accepted qs)"

fun matches :: "Message \<Rightarrow> cond \<Rightarrow> bool" where
  "matches m (RoomIdEq r) = (RoomID m = r)"
| "matches m (IdCmp cs) = (cs \<noteq> [] \<and> list_all (holds_cmp (Time m)) cs)"
| "matches m (Doc qs) = list_all (matches m) qs"
| "matches m (AndOp qs) = list_all (matches m) qs"
| "matches m (OrOp qs) = list_ex (matches m) qs"

fun run_stage :: "stage \<Rightarrow> Message list \<Rightarrow> db_error + Message list" where
  "run_stage (Match q) ms = (if accepted q then Inr (filter (\<lambda>m. matches m q) ms) else Inl EmptyArray)"
| "run_stage (Sort d) ms = Inr (if d < 0 then sort_key (\<lambda>m. - Time m) ms else sort_key Time ms)"
| "run_stage (Limit n) ms = (if 0 < n then Inr (take (nat n) ms) else Inl LimitNotPositive)"

fun Aggregate :: "Message list \<Rightarrow> stage list \<Rightarrow> db_error + Message list" where
  "Aggregate ms [] = Inr ms"
| "Aggregate ms (s # ss) = (case run_stage s ms of Inl e \<Rightarrow> Inl e | Inr ms' \<Rightarrow> Aggregate ms' ss)"

subsection \<open>GetMessageCache, store/mongodb/mongodb.go: one date filter\<close>

definition GetMessageCache :: "Message list \<Rightarrow> string \<Rightarrow> int \<Rightarrow> DateFilter \<Rightarrow> db_error + Message list" where
  "GetMessageCache coll roomID limit dateFilter =
    (let matchQuery = [RoomIdEq roomID];
         matchQuery =
           (if \<not> IsZero (Start dateFilter) \<or> \<not> IsZero (End dateFilter) then
              (let dateFilterValue = [];
                   dateFilterValue =
                     (if \<not> IsZero (Start dateFilter)
                      then dateFilterValue @ [Gte (Start dateFilter)] else dateFilterValue);
                   dateFilterValue =
                     (if \<not> IsZero (End dateFilter)
                      then dateFilterValue @ [Lte (End dateFilter)] else dateFilterValue)
               in matchQuery @ [IdCmp dateFilterValue])
            else matchQuery);
         pipelineQuery = [Match (Doc matchQuery), Sort (- 1)];
         pipelineQuery = (if limit > 0 then pipelineQuery @ [Limit limit] else pipelineQuery);
         pipelineQuery = pipelineQuery @ [Sort 1]
     in Aggregate coll pipelineQuery)"

subsection \<open>GetMessageCache, the variadic version: a list of date filters\<close>

fun dateFilters_loop :: "DateFilter list \<Rightarrow> cond list \<Rightarrow> cond list" where
  "dateFilters_loop [] dateFilters = dateFilters"
| "dateFilters_loop (date # rest) dateFilters =
    (if \<not> IsZero (Start date) \<or> \<not> IsZero (End date) then
       (let dateFilterValue = [];
            dateFilterValue =
              (if \<not> IsZero (Start date) then dateFilterValue @ [Gte (Start date)] else dateFilterValue);
            dateFilterValue =
              (if \<not> IsZero (End date) then dateFilterValue @ [Lte (End date)] else dateFilterValue)
        in dateFilters_loop rest (dateFilters @ [IdCmp dateFilterValue]))
     else dateFilters_loop rest dateFilters)"

definition GetMessageCache_variadic :: "Message list \<Rightarrow> string \<Rightarrow> int \<Rightarrow> DateFilter list \<Rightarrow> db_error + Message list" where
  "GetMessageCache_variadic coll roomID limit dateFilter =
    (let dateFilters = dateFilters_loop dateFilter [];
         pipelineQuery = [Match (AndOp [RoomIdEq roomID, OrOp dateFilters]), Sort (- 1)];
         pipelineQuery = (if limit > 0 then pipelineQuery @ [Limit limit] else pipelineQuery)
     in Aggregate coll pipelineQuery)"



section \<open>The chat history handler (package main)\<close>

text \<open>
  \<^verbatim>\<open>handleChatHistory\<close> up to its call of the hub.  The arguments are what it reads:
  the time zone database (\<^verbatim>\<open>time.LoadLocation\<close>), the current instant
  (\<^verbatim>\<open>time.Now()\<close>, read once), the room of the request context (its id, or none) and
  the query parameters.  The result is either the way the handler ends before the call,
  a response \<^verbatim>\<open>400 Bad Request\<close> with its message or the panic of an index out of
  range, or the arguments of the call
  \<^verbatim>\<open>app.hub.GetChatHistory(room.ID, dateFilters...)\<close>: the only place where the message
  cache is asked.  \<open>hourLoop\<close> is the loop over \<^verbatim>\<open>hourArray\<close> for one day,
  \<open>dateLoop\<close> the loop over the days; \<open>Break\<close> is \<^verbatim>\<open>break dateLoop\<close> and
  \<open>Return\<close> the handler's \<^verbatim>\<open>return\<close>.
\<close>

datatype failure = BadRequest string | Forbidden string | IndexOutOfRange | NilDereference

datatype 'a step = Continue 'a | Break 'a | Return failure

record reqChatHistory =
  From :: string
  Until :: string
  Type :: string
  Hours :: string
  TimeZone :: string
  InCSV :: string

fun hourLoop :: "Location \<Rightarrow> Time \<Rightarrow> Time \<Rightarrow> string list \<Rightarrow> DateFilter list \<Rightarrow> DateFilter list step" where
  "hourLoop timeLocation now i [] dateFilters = Continue dateFilters"
| "hourLoop timeLocation now i (hour # rest) dateFilters =
    (case Parse_defaultDateFormatForRequestParam
            (Format_dateFormat i @ '' '' @ Split hour CHR ''-'' ! 0) of
       None \<Rightarrow> Return (BadRequest ''Error parsing hours for date'')
     | Some (start, startOffset) \<Rightarrow>
         if length (Split hour CHR ''-'') \<le> 1 then Return IndexOutOfRange
         else
           (case Parse_defaultDateFormatForRequestParam
                   (Format_dateFormat i @ '' '' @ Split hour CHR ''-'' ! 1) of
              None \<Rightarrow> Return (BadRequest ''Error parsing hours for date'')
            | Some (end, endOffset) \<Rightarrow>
                (let end = (if Before end start then AddDate (FixedZone endOffset) 0 0 1 end else end);
                     end = (if Before now end then now else end)
                 in if After start now then Break dateFilters
                    else hourLoop timeLocation now i rest
                           (dateFilters @ [\<lparr>Start = start, End = end\<rparr>]))))"

function dateLoop ::
  "Location \<Rightarrow> Time \<Rightarrow> Time \<Rightarrow> Time \<Rightarrow> string \<Rightarrow> string list \<Rightarrow> Time \<Rightarrow> Time \<Rightarrow>
   DateFilter list \<Rightarrow> failure + DateFilter list" where
  "dateLoop timeLocation now nowStart nowEnd reqHours hourArray i end dateFilters =
    (if After i end then Inr dateFilters
     else if length hourArray \<le> 0 \<or> reqHours = [] then
       (let dateFilter =
              \<lparr>Start = Date (Year UTC i) (Month UTC i) (Day UTC i)
                        (Hour timeLocation nowStart) (Minute timeLocation nowStart)
                        (Second timeLocation nowStart) (Nanosecond nowStart) timeLocation,
               End = Date (Year UTC i) (Month UTC i) (Day UTC i)
                        (Hour timeLocation nowEnd) (Minute timeLocation nowEnd)
                        (Second timeLocation nowEnd) (Nanosecond nowEnd) timeLocation\<rparr>;
            dateFilter =
              (if \<not> Before (Start dateFilter) (End dateFilter)
               then dateFilter\<lparr>End := AddDate timeLocation 0 0 1 (End dateFilter)\<rparr>
               else dateFilter);
            dateFilter =
              (if Before now (End dateFilter) then dateFilter\<lparr>End := now\<rparr> else dateFilter)
        in if After (Start dateFilter) now then Inr dateFilters
           else dateLoop timeLocation now nowStart nowEnd reqHours hourArray
                  (AddDate UTC 0 0 1 i) end (dateFilters @ [dateFilter]))
     else
       (case hourLoop timeLocation now i hourArray dateFilters of
          Return f \<Rightarrow> Inl f
        | Break dfs \<Rightarrow> Inr dfs
        | Continue dfs \<Rightarrow>
            dateLoop timeLocation now nowStart nowEnd reqHours hourArray (AddDate UTC 0 0 1 i) end dfs))"
  by pat_completeness auto
termination
proof (relation "measure (\<lambda>(timeLocation, now, nowStart, nowEnd, reqHours, hourArray, i, e, dateFilters). nat (e + 1 - i))")
  show "wf (measure (\<lambda>(timeLocation, now, nowStart, nowEnd, reqHours, hourArray, i, e, dateFilters). nat (e + 1 - i)))"
    by simp
qed (simp_all add: After_def UTC_FixedZone AddDate_FixedZone_day nsPerSecond_def)

declare dateLoop.simps [simp del]

definition handleChatHistory ::
  "(string \<Rightarrow> Location option) \<Rightarrow> Time \<Rightarrow> string option \<Rightarrow> reqChatHistory \<Rightarrow>
   failure + string \<times> DateFilter list" where
  "handleChatHistory LoadLocation now room req =
    (case room of
       None \<Rightarrow> Inl (BadRequest ''room is invalid or has expired'')
     | Some roomID \<Rightarrow>
        (case Parse_dateFormat (From req) of
           None \<Rightarrow> Inl (BadRequest ''error parsing JSON request for \"from\" param'')
         | Some start \<Rightarrow>
            (case Parse_dateFormat (Until req) of
               None \<Rightarrow> Inl (BadRequest ''error parsing JSON request for \"until\" param'')
             | Some end \<Rightarrow>
                if After start end
                then Inl (BadRequest ''date of  \"from\" can't be after \"until\"'')
                else
                  (let timeLocation = (if TimeZone req \<noteq> [] then LoadLocation (TimeZone req) else None);
                       timeLocation = (case timeLocation of None \<Rightarrow> UTC | Some l \<Rightarrow> l);
                       hourArray = Split (Hours req) CHR '','';
                       nowStart = Truncate now (24 * Hour_d);
                       nowEnd = nowStart + (23 * Hour_d + 59 * Minute_d + 59 * Second_d)
                   in (case dateLoop timeLocation now nowStart nowEnd (Hours req) hourArray start end [] of
                         Inl f \<Rightarrow> Inl f
                       | Inr dateFilters \<Rightarrow> Inr (roomID, sort_key Start dateFilters))))))"




section \<open>The auth middleware (package main)\<close>

text \<open>
  \<^verbatim>\<open>hasAuth\<close> and \<^verbatim>\<open>hasRoom\<close> are the third and fourth constants of their block, so
  \<^verbatim>\<open>1 << iota\<close> is 4 and 8.  A request is what \<^verbatim>\<open>wrap\<close> reads of it: the session
  cookie (absent, or its value) and the \<^verbatim>\<open>session_id\<close> of the query and of the header.
  The store's \<^verbatim>\<open>GetSession\<close> and the hub's \<^verbatim>\<open>ActivateRoom\<close> are arguments.  The
  result is the context handed to the next handler, the response written instead, or the
  panic of a nil dereference.
\<close>

definition hasAuth :: "8 word" where "hasAuth = push_bit 2 1"
definition hasRoom :: "8 word" where "hasRoom = push_bit 3 1"

record sess =
  ID :: string
  Handle :: string

record 'room reqCtx =
  ctx_room :: "'room option"
  ctx_roomID :: string
  ctx_sess :: sess

record request =
  Cookie :: "string option"
  QuerySessionID :: string
  HeaderSessionID :: string

definition noCookieValue :: "string option \<Rightarrow> bool" where
  "noCookieValue ck = (case ck of None \<Rightarrow> True | Some v \<Rightarrow> v = [])"

definition wrap ::
  "(string \<Rightarrow> string \<Rightarrow> sess option) \<Rightarrow> (string \<Rightarrow> 'room option) \<Rightarrow> 8 word \<Rightarrow> string \<Rightarrow> request \<Rightarrow>
   failure + 'room reqCtx" where
  "wrap GetSession ActivateRoom opts roomID r =
    (let req = \<lparr>ctx_room = None, ctx_roomID = roomID, ctx_sess = \<lparr>ID = [], Handle = []\<rparr>\<rparr>;
         ck = Cookie r;
         authed =
           (if opts AND hasAuth \<noteq> 0 then
              (if \<not> noCookieValue ck \<or> QuerySessionID r \<noteq> [] \<or> HeaderSessionID r \<noteq> [] then
                 (case (if noCookieValue ck \<and> QuerySessionID r \<noteq> [] then Inr (QuerySessionID r)
                        else if noCookieValue ck \<and> QuerySessionID r \<noteq> [] then Inr (HeaderSessionID r)
                        else (case ck of None \<Rightarrow> Inl NilDereference | Some v \<Rightarrow> Inr v)) of
                    Inl f \<Rightarrow> Inl f
                  | Inr session \<Rightarrow>
                      (case GetSession session roomID of
                         None \<Rightarrow> Inl (Forbidden ''error checking session'')
                       | Some s \<Rightarrow> Inr (req\<lparr>ctx_sess := \<lparr>ID = ID s, Handle = Handle s\<rparr>\<rparr>)))
               else Inr req)
            else Inr req)
     in (case authed of
           Inl f \<Rightarrow> Inl f
         | Inr req \<Rightarrow>
             Inr (if opts AND hasRoom \<noteq> 0
                  then (case ActivateRoom roomID of None \<Rightarrow> req | Some rm \<Rightarrow> req\<lparr>ctx_room := Some rm\<rparr>)
                  else req)))"

section \<open>Properties of the message cache\<close>

subsection \<open>What the two versions compute\<close>

lemma dateFilters_loop_eq:
  "dateFilters_loop fs acc =
     acc @ map (\<lambda>f. IdCmp ((if \<not> IsZero (Start f) then [Gte (Start f)] else []) @
                            (if \<not> IsZero (End f) then [Lte (End f)] else [])))
             (filter (\<lambda>f. \<not> IsZero (Start f) \<or> \<not> IsZero (End f)) fs)"
  by (induction fs arbitrary: acc) (simp_all add: Let_def)

lemma GetMessageCache_eq:
  "GetMessageCache coll roomID limit f =
     Inr (sort_key Time
       ((if limit > 0 then take (nat limit) else id)
          (sort_key (\<lambda>m. - Time m)
             (filter (\<lambda>m. RoomID m = roomID \<and> (IsZero (Start f) \<or> Start f \<le> Time m) \<and>
                           (IsZero (End f) \<or> Time m \<le> End f)) coll))))"
  unfolding GetMessageCache_def Let_def
  by (cases "IsZero (Start f)"; cases "IsZero (End f)"; cases "limit > 0") simp_all

text \<open>
  The version with one date filter, asked without a limit and with the zero filter,
  returns every record of the room once, oldest first.
\<close>

lemma GetMessageCache_unfiltered:
  "\<exists>ms. GetMessageCache coll roomID 0 \<lparr>Start = 0, End = 0\<rparr> = Inr ms \<and>
        sorted (map Time ms) \<and> mset ms = filter_mset (\<lambda>m. RoomID m = roomID) (mset coll)"
  by (simp add: GetMessageCache_eq IsZero_def)

lemma sorted_take_drop:
  assumes s: "sorted (map k xs)" and x: "x \<in> set (take n xs)" and y: "y \<in> set (drop n xs)"
  shows "k x \<le> (k y :: int)"
proof -
  have "sorted (map k (take n xs) @ map k (drop n xs))"
    using s by (simp flip: map_append)
  then show ?thesis using x y by (auto simp: sorted_append)
qed

text \<open>
  The version with one date filter, asked with a positive limit, returns the most recent
  \<open>limit\<close> matching records, oldest first: the result is sorted by timestamp, has
  \<open>min limit n\<close> of the \<open>n\<close> matching records, and every matching record left out is
  no younger than any record returned.
\<close>

lemma GetMessageCache_last_n:
  fixes f roomID
  defines "P \<equiv> \<lambda>m. RoomID m = roomID \<and> (IsZero (Start f) \<or> Start f \<le> Time m) \<and> (IsZero (End f) \<or> Time m \<le> End f)"
  assumes "0 < limit"
  shows "\<exists>ms. GetMessageCache coll roomID limit f = Inr ms \<and>
        sorted (map Time ms) \<and>
        length ms = min (nat limit) (length (filter P coll)) \<and>
        mset ms \<subseteq># mset (filter P coll) \<and>
        (\<forall>m \<in># mset (filter P coll) - mset ms. \<forall>m' \<in> set ms. Time m \<le> Time m')"
proof -
  define d where "d = sort_key (\<lambda>m. - Time m) (filter P coll)"
  define ms where "ms = sort_key Time (take (nat limit) d)"
  have eq: "GetMessageCache coll roomID limit f = Inr ms"
    using assms by (simp add: GetMessageCache_eq ms_def d_def)
  have "mset (filter P coll) = mset d" by (simp add: d_def)
  also have "\<dots> = mset (take (nat limit) d) + mset (drop (nat limit) d)"
    by (metis append_take_drop_id mset_append)
  finally have split: "mset (filter P coll) = mset ms + mset (drop (nat limit) d)"
    by (simp add: ms_def)
  have sd: "sorted (map (\<lambda>m. - Time m) d)" by (simp add: d_def)
  have older: "Time m \<le> Time m'" if "m \<in> set (drop (nat limit) d)" "m' \<in> set ms" for m m'
  proof -
    from that(2) have "m' \<in> set (take (nat limit) d)" by (simp add: ms_def)
    from sorted_take_drop[OF sd this that(1)] show ?thesis by simp
  qed
  have len: "length ms = min (nat limit) (length (filter P coll))"
    by (simp add: ms_def d_def min.commute)
  have srt: "sorted (map Time ms)" by (simp add: ms_def)
  have sub: "mset ms \<subseteq># mset (filter P coll)" unfolding split by simp
  have rest: "\<forall>m \<in># mset (filter P coll) - mset ms. \<forall>m' \<in> set ms. Time m \<le> Time m'"
    unfolding split using older by simp
  from eq srt len sub rest show ?thesis by blast
qed

text \<open>
  The variadic version returns what its pipeline leaves: newest first, with no stage
  that sorts the result back.
\<close>

lemma GetMessageCache_variadic_descending:
  "GetMessageCache_variadic coll roomID limit fs = Inr ms \<Longrightarrow> sorted (rev (map Time ms))"
proof -
  assume r: "GetMessageCache_variadic coll roomID limit fs = Inr ms"
  define q where "q = AndOp [RoomIdEq roomID, OrOp (dateFilters_loop fs [])]"
  define d where "d = sort_key (\<lambda>m. - Time m) (filter (\<lambda>m. matches m q) coll)"
  have sd: "sorted (map (\<lambda>m. - Time m) d)" by (simp add: d_def)
  have desc: "sorted (rev (map Time xs))" if "sorted (map (\<lambda>m. - Time m) xs)" for xs :: "Message list"
    using that by (induction xs) (auto simp: sorted_append)
  have "ms = d \<or> ms = take (nat limit) d"
    using r unfolding GetMessageCache_variadic_def Let_def q_def[symmetric]
    by (auto simp: d_def split: if_splits)
  moreover have "sorted (map (\<lambda>m. - Time m) (take (nat limit) d))"
    using sd by (simp add: take_map[symmetric] sorted_wrt_take)
  ultimately show ?thesis using desc sd by auto
qed

subsection \<open>Claims about the message cache\<close>

text \<open>
  C1. A query with limit 0 and an empty list of date filters is claimed to return every
  record of the room, once each, in ascending order of timestamp.  The variadic
  \<^verbatim>\<open>GetMessageCache\<close> instead builds \<^verbatim>\<open>$or\<close> over an empty array, which the
  database refuses: for every collection and room the call returns the error.
\<close>

theorem C1_empty_filters_rejected:
  "GetMessageCache_variadic coll roomID 0 [] = Inl EmptyArray"
  by (simp add: GetMessageCache_variadic_def)

text \<open>
  C2. With a positive limit the query is claimed to return the most recent records
  re-sorted in ascending order.  The variadic \<^verbatim>\<open>GetMessageCache\<close> selects the most
  recent records and returns them newest first: two records at instants 1 and 2, both in
  the window, come back as 2, 1.
\<close>

theorem C2_limit_returns_descending:
  "GetMessageCache_variadic
     [\<lparr>Time = 1, RoomID = ''r'', Payload = []\<rparr>, \<lparr>Time = 2, RoomID = ''r'', Payload = []\<rparr>]
     ''r'' 2 [\<lparr>Start = 1, End = 2\<rparr>]
   = Inr [\<lparr>Time = 2, RoomID = ''r'', Payload = []\<rparr>, \<lparr>Time = 1, RoomID = ''r'', Payload = []\<rparr>]"
  by (simp add: GetMessageCache_variadic_def IsZero_def)

text \<open>
  C5. A record is claimed to be returned if and only if it belongs to the room and falls
  inside at least one window, a zero bound leaving that side open.  The variadic
  \<^verbatim>\<open>GetMessageCache\<close> skips a window whose bounds are both zero instead of taking
  it as open on both sides.  With the windows \<open>(0, 0)\<close> and \<open>(5, 6)\<close> and no limit,
  the record at instant 1 belongs to the room and lies inside the first window, and only
  the record at instant 5 is returned; with the window \<open>(0, 0)\<close> alone the call
  returns the database's error.
\<close>

theorem C5_all_zero_window_dropped:
  "GetMessageCache_variadic
     [\<lparr>Time = 1, RoomID = ''r'', Payload = []\<rparr>, \<lparr>Time = 5, RoomID = ''r'', Payload = []\<rparr>]
     ''r'' 0 [\<lparr>Start = 0, End = 0\<rparr>, \<lparr>Start = 5, End = 6\<rparr>]
   = Inr [\<lparr>Time = 5, RoomID = ''r'', Payload = []\<rparr>]
   \<and> GetMessageCache_variadic
     [\<lparr>Time = 1, RoomID = ''r'', Payload = []\<rparr>, \<lparr>Time = 5, RoomID = ''r'', Payload = []\<rparr>]
     ''r'' 0 [\<lparr>Start = 0, End = 0\<rparr>]
   = Inl EmptyArray"
  by (simp add: GetMessageCache_variadic_def IsZero_def)

subsection \<open>Where the two versions agree with the window semantics\<close>

text \<open>
  The version with one date filter, asked without a limit: a record is returned if and
  only if it is stored, belongs to the room and lies inside the window, where a zero
  bound leaves its side open and both bounds are inclusive.  The zero filter restricts
  nothing.
\<close>

lemma GetMessageCache_window:
  assumes "limit \<le> 0"
  shows "\<exists>ms. GetMessageCache coll roomID limit f = Inr ms \<and>
     (\<forall>m. m \<in> set ms \<longleftrightarrow> m \<in> set coll \<and> RoomID m = roomID \<and>
        (IsZero (Start f) \<or> Start f \<le> Time m) \<and> (IsZero (End f) \<or> Time m \<le> End f))"
  using assms by (simp add: GetMessageCache_eq)

text \<open>
  The variadic version, asked without a limit and with at least one window, each with a
  non-zero bound, returns the same records for the union of its windows.
\<close>

lemma GetMessageCache_variadic_windows:
  assumes "limit \<le> 0" and "dateFilter \<noteq> []"
    and "\<forall>f\<in>set dateFilter. \<not> (IsZero (Start f) \<and> IsZero (End f))"
  shows "\<exists>ms. GetMessageCache_variadic coll roomID limit dateFilter = Inr ms \<and>
     (\<forall>m. m \<in> set ms \<longleftrightarrow> m \<in> set coll \<and> RoomID m = roomID \<and>
        (\<exists>f\<in>set dateFilter. (IsZero (Start f) \<or> Start f \<le> Time m) \<and>
                              (IsZero (End f) \<or> Time m \<le> End f)))"
proof -
  let ?ok = "\<lambda>f. \<not> IsZero (Start f) \<or> \<not> IsZero (End f)"
  have keep: "filter ?ok dateFilter = dateFilter"
    using assms(3) by (auto simp: filter_id_conv)
  show ?thesis
    using assms(1,2)
    apply (simp add: GetMessageCache_variadic_def dateFilters_loop_eq keep list_all_iff list_ex_iff Bex_def)
    using assms(3) by auto
qed

section \<open>Properties of the handlers\<close>

subsection \<open>The loops of the history resolver\<close>


lemma hourLoop_windows:
  assumes "\<forall>f\<in>set acc. Start f \<le> now \<and> End f \<le> now"
    and "hourLoop loc now i hs acc = Continue dfs \<or> hourLoop loc now i hs acc = Break dfs"
  shows "\<forall>f\<in>set dfs. Start f \<le> now \<and> End f \<le> now"
  using assms
proof (induction hs arbitrary: acc)
  case Nil
  then show ?case by simp
next
  case (Cons hour rest)
  show ?case
  proof (cases "Parse_defaultDateFormatForRequestParam (Format_dateFormat i @ '' '' @ Split hour CHR ''-'' ! 0)")
    case None
    with Cons.prems(2) show ?thesis by simp
  next
    case (Some p)
    obtain start so where p: "p = (start, so)" by (cases p)
    show ?thesis
    proof (cases "length (Split hour CHR ''-'') \<le> 1")
      case True
      with Cons.prems(2) Some p show ?thesis by simp
    next
      case False
      show ?thesis
      proof (cases "Parse_defaultDateFormatForRequestParam (Format_dateFormat i @ '' '' @ Split hour CHR ''-'' ! 1)")
        case None
        with Cons.prems(2) Some p False show ?thesis by simp
      next
        case (Some q)
        obtain e eo where q: "q = (e, eo)" by (cases q)
        define e1 where "e1 = (if Before e start then AddDate (FixedZone eo) 0 0 1 e else e)"
        define e2 where "e2 = (if Before now e1 then now else e1)"
        have e2: "e2 \<le> now" by (simp add: e2_def Before_def)
        have unf: "hourLoop loc now i (hour # rest) acc =
            (if After start now then Break acc
             else hourLoop loc now i rest (acc @ [\<lparr>Start = start, End = e2\<rparr>]))"
          using \<open>Parse_defaultDateFormatForRequestParam (Format_dateFormat i @ '' '' @ Split hour CHR ''-'' ! 0) = Some p\<close>
            p False Some q by (simp add: Let_def e1_def e2_def)
        show ?thesis
        proof (cases "After start now")
          case True
          with Cons.prems unf show ?thesis by simp
        next
          case False
          then have s: "start \<le> now" by (simp add: After_def)
          have "\<forall>f\<in>set (acc @ [\<lparr>Start = start, End = e2\<rparr>]). Start f \<le> now \<and> End f \<le> now"
            using Cons.prems(1) s e2 by simp
          moreover have "hourLoop loc now i rest (acc @ [\<lparr>Start = start, End = e2\<rparr>]) = Continue dfs \<or>
             hourLoop loc now i rest (acc @ [\<lparr>Start = start, End = e2\<rparr>]) = Break dfs"
            using Cons.prems(2) unf False by simp
          ultimately show ?thesis by (rule Cons.IH)
        qed
      qed
    qed
  qed
qed

lemma AddDate_UTC_day: "AddDate UTC 0 0 1 t = t + 86400 * nsPerSecond"
  by (simp add: UTC_FixedZone AddDate_FixedZone_day)

lemma dateLoop_full_day:
  assumes "\<not> After i e" and "length hourArray \<le> 0 \<or> reqHours = []"
  shows "\<exists>df. End df \<le> now \<and>
     dateLoop loc now nowStart nowEnd reqHours hourArray i e acc =
       (if After (Start df) now then Inr acc
        else dateLoop loc now nowStart nowEnd reqHours hourArray (AddDate UTC 0 0 1 i) e (acc @ [df]))"
proof -
  define df0 where "df0 = \<lparr>Start = Date (Year UTC i) (Month UTC i) (Day UTC i)
                        (Hour loc nowStart) (Minute loc nowStart)
                        (Second loc nowStart) (Nanosecond nowStart) loc,
               End = Date (Year UTC i) (Month UTC i) (Day UTC i)
                        (Hour loc nowEnd) (Minute loc nowEnd)
                        (Second loc nowEnd) (Nanosecond nowEnd) loc\<rparr>"
  define df1 where "df1 = (if \<not> Before (Start df0) (End df0)
               then df0\<lparr>End := AddDate loc 0 0 1 (End df0)\<rparr> else df0)"
  define df2 where "df2 = (if Before now (End df1) then df1\<lparr>End := now\<rparr> else df1)"
  have "End df2 \<le> now" by (simp add: df2_def Before_def)
  moreover have "dateLoop loc now nowStart nowEnd reqHours hourArray i e acc =
          (if After (Start df2) now then Inr acc
           else dateLoop loc now nowStart nowEnd reqHours hourArray (AddDate UTC 0 0 1 i) e (acc @ [df2]))"
    using assms
    by (subst dateLoop.simps) (simp add: Let_def df0_def df1_def df2_def)
  ultimately show ?thesis by blast
qed

lemma dateLoop_hours:
  assumes "\<not> After i e" and "\<not> (length hourArray \<le> 0 \<or> reqHours = [])"
  shows "dateLoop loc now nowStart nowEnd reqHours hourArray i e acc =
          (case hourLoop loc now i hourArray acc of
            Return f \<Rightarrow> Inl f
          | Break dfs \<Rightarrow> Inr dfs
          | Continue dfs \<Rightarrow> dateLoop loc now nowStart nowEnd reqHours hourArray (AddDate UTC 0 0 1 i) e dfs)"
  using assms by (subst dateLoop.simps) simp

lemma dateLoop_done:
  "After i e \<Longrightarrow> dateLoop loc now nowStart nowEnd reqHours hourArray i e acc = Inr acc"
  by (subst dateLoop.simps) simp

lemma dateLoop_windows:
  assumes "\<forall>f\<in>set acc. Start f \<le> now \<and> End f \<le> now"
    and "dateLoop loc now nowStart nowEnd reqHours hourArray i e acc = Inr dfs"
  shows "\<forall>f\<in>set dfs. Start f \<le> now \<and> End f \<le> now"
  using assms
proof (induction "nat (e + 1 - i)" arbitrary: i acc rule: less_induct)
  case less
  show ?case
  proof (cases "After i e")
    case True
    with less.prems show ?thesis by (simp add: dateLoop_done)
  next
    case na: False
    have dec: "nat (e + 1 - AddDate UTC 0 0 1 i) < nat (e + 1 - i)"
      using na by (simp add: After_def AddDate_UTC_day nsPerSecond_def)
    show ?thesis
    proof (cases "length hourArray \<le> 0 \<or> reqHours = []")
      case True
      from dateLoop_full_day[OF na True, of now loc nowStart nowEnd acc]
      obtain df where e2: "End df \<le> now"
        and unf: "dateLoop loc now nowStart nowEnd reqHours hourArray i e acc =
          (if After (Start df) now then Inr acc
           else dateLoop loc now nowStart nowEnd reqHours hourArray (AddDate UTC 0 0 1 i) e (acc @ [df]))"
        by blast
      show ?thesis
      proof (cases "After (Start df) now")
        case True
        with less.prems unf show ?thesis by simp
      next
        case False
        then have s: "Start df \<le> now" by (simp add: After_def)
        have a: "\<forall>f\<in>set (acc @ [df]). Start f \<le> now \<and> End f \<le> now"
          using less.prems(1) s e2 by simp
        have r: "dateLoop loc now nowStart nowEnd reqHours hourArray (AddDate UTC 0 0 1 i) e (acc @ [df]) = Inr dfs"
          using less.prems(2) unf False by simp
        show ?thesis by (rule less.hyps[OF dec a r])
      qed
    next
      case nh: False
      note unf = dateLoop_hours[OF na nh, of loc now nowStart nowEnd acc]
      show ?thesis
      proof (cases "hourLoop loc now i hourArray acc")
        case (Continue ds)
        then have a: "\<forall>f\<in>set ds. Start f \<le> now \<and> End f \<le> now"
          using hourLoop_windows[OF less.prems(1), of loc i hourArray ds] by simp
        have r: "dateLoop loc now nowStart nowEnd reqHours hourArray (AddDate UTC 0 0 1 i) e ds = Inr dfs"
          using less.prems(2) unf Continue by simp
        show ?thesis by (rule less.hyps[OF dec a r])
      next
        case (Break ds)
        then have a: "\<forall>f\<in>set ds. Start f \<le> now \<and> End f \<le> now"
          using hourLoop_windows[OF less.prems(1), of loc i hourArray ds] by simp
        moreover have "ds = dfs" using less.prems(2) unf Break by simp
        ultimately show ?thesis by simp
      next
        case (Return f)
        with less.prems(2) unf show ?thesis by simp
      qed
    qed
  qed
qed


subsection \<open>An hour range that fails to parse\<close>



subsection \<open>Formatting a day and parsing it back\<close>
























subsection \<open>Claims about the history resolver\<close>

lemma Parse_2023_01_01: "Parse_dateFormat ''2023-01-01'' = Some (Date 2023 1 1 0 0 0 0 UTC)"
  by code_simp

lemma Parse_2023_01_03: "Parse_dateFormat ''2023-01-03'' = Some (Date 2023 1 3 0 0 0 0 UTC)"
  by code_simp

lemma now_eval:
  "Truncate (Date 2023 1 2 10 0 0 0 UTC) (24 * Hour_d) = Date 2023 1 2 0 0 0 0 UTC"
  by code_simp

lemma three_day_loop:
  "dateLoop UTC (Date 2023 1 2 10 0 0 0 UTC) (Truncate (Date 2023 1 2 10 0 0 0 UTC) (24 * Hour_d))
     (Truncate (Date 2023 1 2 10 0 0 0 UTC) (24 * Hour_d) + (23 * Hour_d + 59 * Minute_d + 59 * Second_d))
     [] [[]] (Date 2023 1 1 0 0 0 0 UTC) (Date 2023 1 3 0 0 0 0 UTC) []
   = Inr [\<lparr>Start = Date 2023 1 1 0 0 0 0 UTC, End = Date 2023 1 1 23 59 59 0 UTC\<rparr>,
          \<lparr>Start = Date 2023 1 2 0 0 0 0 UTC, End = Date 2023 1 2 10 0 0 0 UTC\<rparr>]"
  by code_simp

lemma three_day_order: "Date 2023 1 1 0 0 0 0 UTC \<le> Date 2023 1 2 0 0 0 0 UTC"
  by code_simp

lemma not_after_01_03: "\<not> After (Date 2023 1 1 0 0 0 0 UTC) (Date 2023 1 3 0 0 0 0 UTC)"
  by code_simp


text \<open>
  C3. From 2023-01-01 until 2023-01-03, without hours, in UTC (the time zone absent,
  unknown or resolved to UTC), at the current instant 2023-01-02 10:00:00 UTC: the
  resolver hands over the full day 2023-01-01, from 00:00:00 to 23:59:59, and the window
  of 2023-01-02 from 00:00:00 with its end clamped to 10:00:00; there is no window for
  2023-01-03, whose start is after the current instant.
\<close>

theorem C3_three_day_request:
  assumes "tz = [] \<or> LoadLocation tz = None \<or> LoadLocation tz = Some UTC"
  shows "handleChatHistory LoadLocation (Date 2023 1 2 10 0 0 0 UTC) (Some roomID)
     \<lparr>From = ''2023-01-01'', Until = ''2023-01-03'', Type = ty, Hours = [], TimeZone = tz, InCSV = csv\<rparr>
   = Inr (roomID, [\<lparr>Start = Date 2023 1 1 0 0 0 0 UTC, End = Date 2023 1 1 23 59 59 0 UTC\<rparr>,
                 \<lparr>Start = Date 2023 1 2 0 0 0 0 UTC, End = Date 2023 1 2 10 0 0 0 UTC\<rparr>])"
proof -
  from assms consider "tz = []" | "tz \<noteq> []" "LoadLocation tz = None"
    | "tz \<noteq> []" "LoadLocation tz = Some UTC" by auto
  then show ?thesis
    by cases
       (simp_all add: handleChatHistory_def Let_def Parse_2023_01_01 Parse_2023_01_03
          not_after_01_03 three_day_loop three_day_order)
qed

theorem C3_witness:
  "handleChatHistory (\<lambda>n. if n = ''UTC'' then Some UTC else None) (Date 2023 1 2 10 0 0 0 UTC) (Some ''r'')
     \<lparr>From = ''2023-01-01'', Until = ''2023-01-03'', Type = [], Hours = [], TimeZone = ''UTC'', InCSV = []\<rparr>
   = Inr (''r'', [\<lparr>Start = Date 2023 1 1 0 0 0 0 UTC, End = Date 2023 1 1 23 59 59 0 UTC\<rparr>,
                 \<lparr>Start = Date 2023 1 2 0 0 0 0 UTC, End = Date 2023 1 2 10 0 0 0 UTC\<rparr>])"
  by (rule C3_three_day_request) simp





text \<open>
  C6. Whatever the request (from, until, hours, timezone), the time zone database and the
  current instant: when the resolver reaches the message-cache query, every window it
  hands over has its start and its end not after the current instant.
\<close>

theorem C6_windows_not_after_now:
  assumes "handleChatHistory LoadLocation now room req = Inr (roomID, dateFilters)"
  shows "\<forall>f\<in>set dateFilters. Start f \<le> now \<and> End f \<le> now"
proof -
  from assms obtain loc nowStart nowEnd hourArray s e dfs where
    d: "dateLoop loc now nowStart nowEnd (Hours req) hourArray s e [] = Inr dfs"
    and r: "dateFilters = sort_key Start dfs"
    unfolding handleChatHistory_def Let_def
    by (auto split: option.splits if_splits sum.splits)
  have "\<forall>f\<in>set dfs. Start f \<le> now \<and> End f \<le> now"
    by (rule dateLoop_windows[OF _ d]) simp
  then show ?thesis by (simp add: r)
qed

theorem C6_witness:
  "handleChatHistory (\<lambda>n. None) (Date 2023 1 2 10 0 0 0 UTC) (Some ''r'')
     \<lparr>From = ''2023-01-01'', Until = ''2023-01-03'', Type = [], Hours = [], TimeZone = [], InCSV = []\<rparr>
   = Inr (''r'', [\<lparr>Start = Date 2023 1 1 0 0 0 0 UTC, End = Date 2023 1 1 23 59 59 0 UTC\<rparr>,
                 \<lparr>Start = Date 2023 1 2 0 0 0 0 UTC, End = Date 2023 1 2 10 0 0 0 UTC\<rparr>])
   \<and> Date 2023 1 1 0 0 0 0 UTC \<le> Date 2023 1 2 10 0 0 0 UTC
   \<and> Date 2023 1 1 23 59 59 0 UTC \<le> Date 2023 1 2 10 0 0 0 UTC
   \<and> Date 2023 1 2 0 0 0 0 UTC \<le> Date 2023 1 2 10 0 0 0 UTC"
proof -
  have r: "handleChatHistory (\<lambda>n. None) (Date 2023 1 2 10 0 0 0 UTC) (Some ''r'')
     \<lparr>From = ''2023-01-01'', Until = ''2023-01-03'', Type = [], Hours = [], TimeZone = [], InCSV = []\<rparr>
   = Inr (''r'', [\<lparr>Start = Date 2023 1 1 0 0 0 0 UTC, End = Date 2023 1 1 23 59 59 0 UTC\<rparr>,
                 \<lparr>Start = Date 2023 1 2 0 0 0 0 UTC, End = Date 2023 1 2 10 0 0 0 UTC\<rparr>])"
    by code_simp
  from C6_windows_not_after_now[OF r] show ?thesis using r by simp
qed






text \<open>
  C10. When \<open>from\<close> and \<open>until\<close> both parse as dates and \<open>from\<close> is the later one,
  the handler answers 400 Bad Request and returns before any window is built and before
  the message cache is asked: with the message about the dates when the room exists, and
  with the message about the room, checked first, when it does not.
\<close>

theorem C10_from_after_until_rejected:
  assumes "Parse_dateFormat (From req) = Some s" and "Parse_dateFormat (Until req) = Some e"
    and "After s e"
  shows "handleChatHistory LoadLocation now rm req =
     Inl (BadRequest (case rm of None \<Rightarrow> ''room is invalid or has expired''
                      | Some x \<Rightarrow> ''date of  \"from\" can't be after \"until\"''))"
  using assms by (simp add: handleChatHistory_def split: option.splits)

theorem C10_witness:
  "After (Date 2023 1 3 0 0 0 0 UTC) (Date 2023 1 1 0 0 0 0 UTC) \<and>
   handleChatHistory (\<lambda>n. None) 0 (Some ''r'')
     \<lparr>From = ''2023-01-03'', Until = ''2023-01-01'', Type = [], Hours = [], TimeZone = [], InCSV = []\<rparr>
   = Inl (BadRequest ''date of  \"from\" can't be after \"until\"'')"
proof -
  have a: "After (Date 2023 1 3 0 0 0 0 UTC) (Date 2023 1 1 0 0 0 0 UTC)" by code_simp
  from C10_from_after_until_rejected[of "\<lparr>From = ''2023-01-03'', Until = ''2023-01-01'', Type = [], Hours = [], TimeZone = [], InCSV = []\<rparr>",
      OF _ _ a, of "\<lambda>n. None" 0 "Some ''r''"]
  show ?thesis using a by (simp add: Parse_2023_01_01 Parse_2023_01_03)
qed

subsection \<open>Claims about the auth middleware\<close>

text \<open>
  C9. On a route that asks for authentication, a request with no session cookie and no
  \<open>session_id\<close> in the query, and a non-empty \<open>session_id\<close> in the header, makes
  \<^verbatim>\<open>wrap\<close> read \<^verbatim>\<open>ck.Value\<close> of the nil cookie: the handler panics, the session of
  the header is never looked up.
\<close>

theorem C9_header_only_session_panics:
  assumes "opts AND hasAuth \<noteq> 0" and "Cookie r = None" and "QuerySessionID r = []"
    and "HeaderSessionID r \<noteq> []"
  shows "wrap GetSession ActivateRoom opts roomID r = Inl NilDereference"
  using assms by (simp add: wrap_def noCookieValue_def)

theorem C9_witness:
  "hasAuth AND hasAuth \<noteq> 0 \<and>
   wrap (\<lambda>s r. Some \<lparr>ID = s, Handle = ''h''\<rparr>) (\<lambda>r. Some ()) hasAuth ''room''
     \<lparr>Cookie = None, QuerySessionID = [], HeaderSessionID = ''abc''\<rparr> = Inl NilDereference"
proof -
  have h: "hasAuth AND hasAuth \<noteq> 0" by (simp add: hasAuth_def)
  from C9_header_only_session_panics[OF h, of "\<lparr>Cookie = None, QuerySessionID = [], HeaderSessionID = ''abc''\<rparr>"]
  show ?thesis using h by simp
qed

end
